theory Spec2Isabelle
  imports Complex_Main "HOL-Library.AList"
begin

section \<open>The pipeline scheduler of \<^verbatim>\<open>pipeline_scheduler.py\<close>\<close>

text \<open>
  The scheduler is modelled from \<^verbatim>\<open>class PipelineScheduler\<close>. Everything the class does to
  the outside is an event of a trace: a log record, a blocking \<^verbatim>\<open>subprocess.run\<close>, a
  \<^verbatim>\<open>subprocess.Popen\<close>, a \<^verbatim>\<open>p.wait()\<close> and the \<^verbatim>\<open>time.sleep\<close> of the polling loop.
  Everything the outside decides is an input: which files exist, whether the interpreter
  \<^verbatim>\<open>python\<close> can be spawned, the exit status of every script, the two readings of
  \<^verbatim>\<open>time.time()\<close> and the readings of \<^verbatim>\<open>datetime.now()\<close>. A stage raises
  \<^verbatim>\<open>CalledProcessError\<close> on a non-zero exit status of a checked process, and
  \<^verbatim>\<open>FileNotFoundError\<close> (an \<^verbatim>\<open>OSError\<close>) where the interpreter cannot be spawned.
\<close>

subsection \<open>Configuration\<close>

type_synonym path = string

text \<open>\<^verbatim>\<open>os.path.join\<close> for two components (POSIX).\<close>

definition path_join :: "path \<Rightarrow> path \<Rightarrow> path" where
  "path_join a b =
     (if b \<noteq> [] \<and> hd b = CHR ''/'' then b
      else if a = [] \<or> last a = CHR ''/'' then a @ b
      else a @ ''/'' @ b)"

record scheduler =
  base_dir :: path
  ingestion_script :: path
  analysis_dir :: path
  indicators :: "path list"
  alert_script :: path

text \<open>\<^verbatim>\<open>__init__\<close>; the directory of the file is the parameter.\<close>

definition init :: "path \<Rightarrow> scheduler" where
  "init b =
     \<lparr> base_dir = b,
       ingestion_script = path_join (path_join b ''data_ingestion'') ''market_data_fetcher.py'',
       analysis_dir = path_join b ''technical_analysis'',
       indicators =
         [ path_join (path_join b ''technical_analysis'') ''calc_ema_crossover.py'',
           path_join (path_join b ''technical_analysis'') ''calc_rsi_multi.py'',
           path_join (path_join b ''technical_analysis'') ''calc_ema_trend.py'',
           path_join (path_join b ''technical_analysis'') ''calc_macd_momentum.py'' ],
       alert_script = path_join (path_join b ''alerting'') ''signal_broadcaster.py'' \<rparr>"

subsection \<open>The outside world, events and errors\<close>

text \<open>
  What one pipeline run sees of the outside: \<^verbatim>\<open>os.path.exists\<close>, whether the command
  \<^verbatim>\<open>python\<close> can be spawned at all, the exit status of the process started for a script
  (read only where a process is started), and the readings of \<^verbatim>\<open>time.time()\<close> at the start
  and at the end of the run (as reals; the rounding of the float subtraction is not
  modelled).
\<close>

record world =
  path_exists :: "path \<Rightarrow> bool"
  interpreter :: bool
  returncode :: "path \<Rightarrow> int"
  time_start :: real
  time_end :: real

datatype stage = Ingestion | Analysis | Alerting

datatype error =
    CalledProcessError int path
  | FileNotFoundError path

record datetime =
  hour :: nat
  minute :: nat
  second :: nat

datatype level = INFO | WARNING | ERROR

datatype message =
    SchedulerStarted
  | Triggering datetime
  | StartingIngestion path
  | IngestionNotFound path
  | StartingAnalysis
  | AnalysisMissing path
  | AllCalculated
  | RunningBroadcaster path
  | AlertNotFound path
  | FinishedIn real
  | PipelineFailed error
  | CriticalSchedulerError error

text \<open>
  \<open>Run st p\<close> is the process of the blocking \<^verbatim>\<open>subprocess.run(["python", p], check=True)\<close>
  of stage \<open>st\<close> (the call returns when the process has ended), \<open>Popen p\<close> the start of an
  indicator process without waiting, \<open>Wait p\<close> the return of \<^verbatim>\<open>p.wait()\<close> for it. A call
  that cannot spawn the interpreter starts no process and leaves no event.
\<close>

datatype event =
    Log level message
  | Run stage path
  | Popen path
  | Wait path
  | Sleep nat

text \<open>
  The source returns no outcome; the outcome of a run is the way \<^verbatim>\<open>execute_pipeline\<close>
  leaves its \<^verbatim>\<open>try\<close> statement: \<open>Completed\<close> when the body ran to its end, \<open>Aborted e\<close>
  when a handler caught \<open>e\<close>.
\<close>

datatype outcome = Completed | Aborted error

subsection \<open>The three stages\<close>

text \<open>
  \<^verbatim>\<open>subprocess.run(["python", p], check=True)\<close>: raises \<^verbatim>\<open>FileNotFoundError\<close> when the
  interpreter cannot be spawned, and \<^verbatim>\<open>CalledProcessError\<close> on a non-zero exit status.
\<close>

definition subprocess_run :: "world \<Rightarrow> stage \<Rightarrow> path \<Rightarrow> event list \<times> (error + unit)" where
  "subprocess_run w st p =
     (if \<not> interpreter w then ([], Inl (FileNotFoundError ''python''))
      else if returncode w p = 0 then ([Run st p], Inr ())
      else ([Run st p], Inl (CalledProcessError (returncode w p) p)))"

definition run_ingestion :: "scheduler \<Rightarrow> world \<Rightarrow> event list \<times> (error + unit)" where
  "run_ingestion S w =
     (if path_exists w (ingestion_script S)
      then (case subprocess_run w Ingestion (ingestion_script S) of
              (evs, r) \<Rightarrow> (Log INFO (StartingIngestion (ingestion_script S)) # evs, r))
      else ([Log ERROR (IngestionNotFound (ingestion_script S))], Inr ()))"

text \<open>
  The first loop of \<^verbatim>\<open>run_analysis_parallel\<close>: the events it issues and the list
  \<^verbatim>\<open>processes\<close> it builds; \<^verbatim>\<open>subprocess.Popen\<close> raises \<^verbatim>\<open>FileNotFoundError\<close> when the
  interpreter cannot be spawned, which ends the loop and the stage.
\<close>

fun launch_indicators ::
  "world \<Rightarrow> path list \<Rightarrow> path list \<Rightarrow> event list \<times> (error + path list)" where
  "launch_indicators w [] processes = ([], Inr processes)"
| "launch_indicators w (script # rest) processes =
     (if path_exists w script
      then (if \<not> interpreter w then ([], Inl (FileNotFoundError ''python''))
            else (case launch_indicators w rest (processes @ [script]) of
                    (evs, r) \<Rightarrow> (Popen script # evs, r)))
      else (case launch_indicators w rest processes of
              (evs, r) \<Rightarrow> (Log WARNING (AnalysisMissing script) # evs, r)))"

text \<open>The second loop: \<^verbatim>\<open>p.wait()\<close> for every started process; the status is dropped.\<close>

fun wait_all :: "world \<Rightarrow> path list \<Rightarrow> event list" where
  "wait_all w [] = []"
| "wait_all w (p # ps) = Wait p # wait_all w ps"

definition run_analysis_parallel :: "scheduler \<Rightarrow> world \<Rightarrow> event list \<times> (error + unit)" where
  "run_analysis_parallel S w =
     (case launch_indicators w (indicators S) [] of
        (evs, Inl err) \<Rightarrow> ([Log INFO StartingAnalysis] @ evs, Inl err)
      | (evs, Inr processes) \<Rightarrow>
          ([Log INFO StartingAnalysis] @ evs @ wait_all w processes @ [Log INFO AllCalculated],
           Inr ()))"

definition run_alerting :: "scheduler \<Rightarrow> world \<Rightarrow> event list \<times> (error + unit)" where
  "run_alerting S w =
     (if path_exists w (alert_script S)
      then (case subprocess_run w Alerting (alert_script S) of
              (evs, r) \<Rightarrow> (Log INFO (RunningBroadcaster (alert_script S)) # evs, r))
      else ([Log ERROR (AlertNotFound (alert_script S))], Inr ()))"

subsection \<open>One run\<close>

text \<open>The two \<^verbatim>\<open>except\<close> clauses of \<^verbatim>\<open>execute_pipeline\<close>, in the source's order.\<close>

fun handler :: "error \<Rightarrow> event" where
  "handler (CalledProcessError rc p) = Log ERROR (PipelineFailed (CalledProcessError rc p))"
| "handler e = Log ERROR (CriticalSchedulerError e)"

definition execute_pipeline :: "scheduler \<Rightarrow> world \<Rightarrow> event list \<times> outcome" where
  "execute_pipeline S w =
     (case run_ingestion S w of
        (e1, Inl err) \<Rightarrow> (e1 @ [handler err], Aborted err)
      | (e1, Inr _) \<Rightarrow>
     (case run_analysis_parallel S w of
        (e2, Inl err) \<Rightarrow> (e1 @ e2 @ [handler err], Aborted err)
      | (e2, Inr _) \<Rightarrow>
     (case run_alerting S w of
        (e3, Inl err) \<Rightarrow> (e1 @ e2 @ e3 @ [handler err], Aborted err)
      | (e3, Inr _) \<Rightarrow>
          (e1 @ e2 @ e3 @ [Log INFO (FinishedIn (time_end w - time_start w))], Completed))))"

subsection \<open>The polling loop\<close>

text \<open>
  \<^verbatim>\<open>executed_minutes\<close> is a dict; it is an association list here, in insertion order,
  since the loop iterates over its keys.
\<close>

type_synonym window = "(nat \<times> bool) list"

definition executed_minutes_init :: window where
  "executed_minutes_init = [(0, False), (15, False), (30, False), (45, False)]"

text \<open>
  \<^verbatim>\<open>for m in executed_minutes: if m != current_minute: executed_minutes[m] = False\<close>,
  over the keys \<open>ks\<close> of the dict.
\<close>

fun reset_others :: "nat \<Rightarrow> nat list \<Rightarrow> window \<Rightarrow> window" where
  "reset_others current_minute [] em = em"
| "reset_others current_minute (m # ms) em =
     (if m \<noteq> current_minute
      then reset_others current_minute ms (AList.update m False em)
      else reset_others current_minute ms em)"

text \<open>Lines 116 to 121: mark the slot as done, then reset the others.\<close>

definition mark_executed :: "nat \<Rightarrow> window \<Rightarrow> window" where
  "mark_executed current_minute em =
     (let em1 = AList.update current_minute True em
      in reset_others current_minute (map fst em1) em1)"

text \<open>
  One iteration of \<^verbatim>\<open>while True\<close>. The input is the reading of \<^verbatim>\<open>datetime.now()\<close> and the
  world the pipeline would run in; the result is the events of the iteration and the dict
  at its end.
\<close>

definition poll :: "scheduler \<Rightarrow> datetime \<times> world \<Rightarrow> window \<Rightarrow> event list \<times> window" where
  "poll S tick em =
     (case map_of em (minute (fst tick)) of
        None \<Rightarrow> ([Sleep 10], em)
      | Some True \<Rightarrow> ([Sleep 10], em)
      | Some False \<Rightarrow>
          (Log INFO (Triggering (fst tick)) # fst (execute_pipeline S (snd tick)) @ [Sleep 10],
           mark_executed (minute (fst tick)) em))"

text \<open>
  The loop never returns; \<open>scheduler_loop\<close> runs it for the iterations whose clock readings
  are given, and returns the events of every iteration, one list per iteration, and the
  dict after the last one.
\<close>

fun scheduler_loop ::
  "scheduler \<Rightarrow> window \<Rightarrow> (datetime \<times> world) list \<Rightarrow> event list list \<times> window" where
  "scheduler_loop S em [] = ([], em)"
| "scheduler_loop S em (tick # ticks) =
     (case poll S tick em of
        (evs, em') \<Rightarrow>
          (case scheduler_loop S em' ticks of (rest, em'') \<Rightarrow> (evs # rest, em'')))"

definition start_scheduler ::
  "scheduler \<Rightarrow> (datetime \<times> world) list \<Rightarrow> event list list \<times> window" where
  "start_scheduler S ticks =
     (case scheduler_loop S executed_minutes_init ticks of
        (iters, em) \<Rightarrow> ([Log INFO SchedulerStarted] # iters, em))"

subsection \<open>Reading a trace\<close>

text \<open>The tasks of a stage that a trace starts.\<close>

fun invoked :: "stage \<Rightarrow> event \<Rightarrow> bool" where
  "invoked st (Run st' p) = (st = st')"
| "invoked st (Popen p) = (st = Analysis)"
| "invoked st e = False"

definition invocations :: "stage \<Rightarrow> event list \<Rightarrow> event list" where
  "invocations st evs = filter (invoked st) evs"

text \<open>
  The processes a trace starts without waiting, and those it has waited for, in order.
\<close>

fun started :: "event list \<Rightarrow> path list" where
  "started [] = []"
| "started (Popen p # es) = p # started es"
| "started (e # es) = started es"

fun waited :: "event list \<Rightarrow> path list" where
  "waited [] = []"
| "waited (Wait p # es) = p # waited es"
| "waited (e # es) = waited es"

text \<open>
  What the alerting stage does, and the two kinds of event before which the join barrier
  must have been passed: the report of the end of the analysis stage, and anything of the
  alerting stage.
\<close>

fun is_alerting :: "event \<Rightarrow> bool" where
  "is_alerting (Log l (RunningBroadcaster p)) = True"
| "is_alerting (Log l (AlertNotFound p)) = True"
| "is_alerting (Run Alerting p) = True"
| "is_alerting e = False"

definition checkpoint :: "event \<Rightarrow> bool" where
  "checkpoint e = (e = Log INFO AllCalculated \<or> is_alerting e)"

text \<open>The record of the elapsed duration.\<close>

fun is_duration_report :: "event \<Rightarrow> bool" where
  "is_duration_report (Log l (FinishedIn d)) = True"
| "is_duration_report e = False"

definition reports_duration :: "event list \<Rightarrow> bool" where
  "reports_duration evs = (filter is_duration_report evs \<noteq> [])"

text \<open>
  An iteration of the polling loop admits a run when it logs the trigger; \<open>admitted\<close>
  lists the minutes of the runs admitted, in order.
\<close>

fun admitted_minute :: "event list \<Rightarrow> nat option" where
  "admitted_minute (Log l (Triggering now) # es) = Some (minute now)"
| "admitted_minute es = None"

definition admitted :: "event list list \<Rightarrow> nat list" where
  "admitted iters = List.map_filter admitted_minute iters"

text \<open>\<^verbatim>\<open>shouldRun\<close> of the design: the test \<^verbatim>\<open>not executed_minutes[current_minute]\<close>.\<close>

definition should_run :: "window \<Rightarrow> nat \<Rightarrow> bool" where
  "should_run em m = (map_of em m = Some False)"

definition at_most_one_true :: "window \<Rightarrow> bool" where
  "at_most_one_true em = (length (filter snd em) \<le> 1)"

text \<open>
  The stage result of the design, in the design's words: \<open>Success\<close> when every analysis
  task succeeded, else \<open>PartialFailure\<close> with the failed references (a missing entry point
  or a non-zero exit status).
\<close>

datatype stage_result = Success | PartialFailure "path list" | FatalFailure

definition analysis_result_spec :: "scheduler \<Rightarrow> world \<Rightarrow> stage_result" where
  "analysis_result_spec S w =
     (case filter (\<lambda>p. \<not> (path_exists w p \<and> returncode w p = 0)) (indicators S) of
        [] \<Rightarrow> Success
      | failed \<Rightarrow> PartialFailure failed)"

subsection \<open>Sample worlds and clocks\<close>

definition world_ok :: world where
  "world_ok = \<lparr> path_exists = (\<lambda>p. True), interpreter = True, returncode = (\<lambda>p. 0),
                time_start = 0, time_end = 1 \<rparr>"

definition world_fail :: world where
  "world_fail = \<lparr> path_exists = (\<lambda>p. True), interpreter = True, returncode = (\<lambda>p. 1),
                  time_start = 0, time_end = 1 \<rparr>"

definition world_no_ingestion :: world where
  "world_no_ingestion =
     \<lparr> path_exists = (\<lambda>p. p \<noteq> ''/app/data_ingestion/market_data_fetcher.py''),
       interpreter = True, returncode = (\<lambda>p. 0), time_start = 0, time_end = 1 \<rparr>"


definition world_rsi_fails :: world where
  "world_rsi_fails =
     \<lparr> path_exists = (\<lambda>p. True), interpreter = True,
       returncode = (\<lambda>p. if p = ''/app/technical_analysis/calc_rsi_multi.py'' then 1 else 0),
       time_start = 0, time_end = 1 \<rparr>"

text \<open>A world without the interpreter, where only the ingestion script is missing.\<close>

definition world_no_python :: world where
  "world_no_python =
     \<lparr> path_exists = (\<lambda>p. p \<noteq> ''/app/data_ingestion/market_data_fetcher.py''),
       interpreter = False, returncode = (\<lambda>p. 0), time_start = 0, time_end = 1 \<rparr>"

text \<open>
  A clock of sixty minutes read every ten seconds, as the loop reads it when a run takes
  no time: minutes 0 to 59 of hour \<open>h\<close>, seconds 0, 10, ..., 50.
\<close>

definition sim_clock :: "nat \<Rightarrow> datetime list" where
  "sim_clock h =
     concat (map (\<lambda>m. map (\<lambda>s. \<lparr> hour = h, minute = m, second = s \<rparr>) [0, 10, 20, 30, 40, 50])
                 [0 ..< 60])"

text \<open>The events of one admitted iteration in which every script exists and succeeds.\<close>

definition full_run :: "scheduler \<Rightarrow> world \<Rightarrow> datetime \<Rightarrow> event list" where
  "full_run S w now =
     [Log INFO (Triggering now),
      Log INFO (StartingIngestion (ingestion_script S)),
      Run Ingestion (ingestion_script S),
      Log INFO StartingAnalysis]
     @ map Popen (indicators S)
     @ map Wait (indicators S)
     @ [Log INFO AllCalculated,
        Log INFO (RunningBroadcaster (alert_script S)),
        Run Alerting (alert_script S),
        Log INFO (FinishedIn (time_end w - time_start w)),
        Sleep 10]"

text \<open>
  The run in which everything exists and only one indicator fails, up to the start of the
  alerting process.
\<close>

definition trace_before_alerting :: "event list" where
  "trace_before_alerting =
     [Log INFO (StartingIngestion ''/app/data_ingestion/market_data_fetcher.py''),
      Run Ingestion ''/app/data_ingestion/market_data_fetcher.py'',
      Log INFO StartingAnalysis,
      Popen ''/app/technical_analysis/calc_ema_crossover.py'',
      Popen ''/app/technical_analysis/calc_rsi_multi.py'',
      Popen ''/app/technical_analysis/calc_ema_trend.py'',
      Popen ''/app/technical_analysis/calc_macd_momentum.py'',
      Wait ''/app/technical_analysis/calc_ema_crossover.py'',
      Wait ''/app/technical_analysis/calc_rsi_multi.py'',
      Wait ''/app/technical_analysis/calc_ema_trend.py'',
      Wait ''/app/technical_analysis/calc_macd_momentum.py'',
      Log INFO AllCalculated,
      Log INFO (RunningBroadcaster ''/app/alerting/signal_broadcaster.py'')]"

text \<open>The first reading of the clock at 09:15, in a world where everything succeeds.\<close>

definition tick_0915 :: "datetime \<times> world" where
  "tick_0915 = (\<lparr> hour = 9, minute = 15, second = 0 \<rparr>, world_ok)"

text \<open>
  Every configured script exists, is started and its process ends with exit status 0.
\<close>

definition all_succeed :: "scheduler \<Rightarrow> world \<Rightarrow> bool" where
  "all_succeed S w =
     (interpreter w \<and>
      list_all (\<lambda>p. path_exists w p \<and> returncode w p = 0)
        (ingestion_script S # alert_script S # indicators S))"

text \<open>The iterations that admitted a run, with all their events.\<close>

definition admitted_runs :: "event list list \<Rightarrow> event list list" where
  "admitted_runs iters = filter (\<lambda>evs. admitted_minute evs \<noteq> None) iters"

text \<open>The six readings of the clock within minute \<open>m\<close>.\<close>

definition minute_ticks :: "nat \<Rightarrow> world \<Rightarrow> nat \<Rightarrow> (datetime \<times> world) list" where
  "minute_ticks h w m =
     map (\<lambda>s. (\<lparr> hour = h, minute = m, second = s \<rparr>, w)) [0, 10, 20, 30, 40, 50]"

section \<open>Properties\<close>

subsection \<open>The stages in closed form\<close>

lemma run_ingestion_eq:
  "run_ingestion S w =
     (if \<not> path_exists w (ingestion_script S)
      then ([Log ERROR (IngestionNotFound (ingestion_script S))], Inr ())
      else if \<not> interpreter w
      then ([Log INFO (StartingIngestion (ingestion_script S))],
            Inl (FileNotFoundError ''python''))
      else if returncode w (ingestion_script S) = 0
      then ([Log INFO (StartingIngestion (ingestion_script S)),
             Run Ingestion (ingestion_script S)], Inr ())
      else ([Log INFO (StartingIngestion (ingestion_script S)),
             Run Ingestion (ingestion_script S)],
            Inl (CalledProcessError (returncode w (ingestion_script S)) (ingestion_script S))))"
  by (simp add: run_ingestion_def subprocess_run_def)

lemma run_alerting_eq:
  "run_alerting S w =
     (if \<not> path_exists w (alert_script S)
      then ([Log ERROR (AlertNotFound (alert_script S))], Inr ())
      else if \<not> interpreter w
      then ([Log INFO (RunningBroadcaster (alert_script S))],
            Inl (FileNotFoundError ''python''))
      else if returncode w (alert_script S) = 0
      then ([Log INFO (RunningBroadcaster (alert_script S)),
             Run Alerting (alert_script S)], Inr ())
      else ([Log INFO (RunningBroadcaster (alert_script S)),
             Run Alerting (alert_script S)],
            Inl (CalledProcessError (returncode w (alert_script S)) (alert_script S))))"
  by (simp add: run_alerting_def subprocess_run_def)

lemma launch_indicators_eq:
  "interpreter w \<Longrightarrow>
   launch_indicators w ss ps =
     (map (\<lambda>s. if path_exists w s then Popen s else Log WARNING (AnalysisMissing s)) ss,
      Inr (ps @ filter (path_exists w) ss))"
  by (induction ss arbitrary: ps) simp_all

lemma launch_indicators_no_interpreter:
  "\<not> interpreter w \<Longrightarrow>
   launch_indicators w ss ps =
     (map (\<lambda>s. Log WARNING (AnalysisMissing s)) (takeWhile (\<lambda>s. \<not> path_exists w s) ss),
      if filter (path_exists w) ss = [] then Inr ps else Inl (FileNotFoundError ''python''))"
  by (induction ss arbitrary: ps) simp_all

lemma launch_indicators_returncode:
  "launch_indicators (w\<lparr>returncode := r\<rparr>) ss ps = launch_indicators w ss ps"
  by (induction ss arbitrary: ps) simp_all

lemma wait_all_eq: "wait_all w ps = map Wait ps"
  by (induction ps) simp_all

lemma run_analysis_parallel_eq:
  "interpreter w \<Longrightarrow>
   run_analysis_parallel S w =
     (Log INFO StartingAnalysis
        # map (\<lambda>s. if path_exists w s then Popen s else Log WARNING (AnalysisMissing s))
            (indicators S)
        @ map Wait (filter (path_exists w) (indicators S))
        @ [Log INFO AllCalculated],
      Inr ())"
  by (simp add: run_analysis_parallel_def launch_indicators_eq wait_all_eq)

lemma takeWhile_all_missing:
  "filter (path_exists w) ss = [] \<Longrightarrow> takeWhile (\<lambda>s. \<not> path_exists w s) ss = ss"
  by (induction ss) (simp_all split: if_splits)

lemma launch_all_missing:
  "filter (path_exists w) ss = [] \<Longrightarrow>
   map (\<lambda>s. if path_exists w s then Popen s else Log WARNING (AnalysisMissing s)) ss
     = map (\<lambda>s. Log WARNING (AnalysisMissing s)) ss"
  by (induction ss) (simp_all split: if_splits)

lemma run_analysis_parallel_no_interpreter:
  "\<not> interpreter w \<Longrightarrow>
   run_analysis_parallel S w =
     (if filter (path_exists w) (indicators S) = []
      then (Log INFO StartingAnalysis
              # map (\<lambda>s. Log WARNING (AnalysisMissing s)) (indicators S)
              @ [Log INFO AllCalculated],
            Inr ())
      else (Log INFO StartingAnalysis
              # map (\<lambda>s. Log WARNING (AnalysisMissing s))
                  (takeWhile (\<lambda>s. \<not> path_exists w s) (indicators S)),
            Inl (FileNotFoundError ''python'')))"
  by (simp add: run_analysis_parallel_def launch_indicators_no_interpreter
        takeWhile_all_missing)

lemma invocations_Nil: "invocations st [] = []"
  by (simp add: invocations_def)

lemma invocations_Cons:
  "invocations st (e # es) = (if invoked st e then e # invocations st es else invocations st es)"
  by (simp add: invocations_def)

lemma invocations_append: "invocations st (xs @ ys) = invocations st xs @ invocations st ys"
  by (simp add: invocations_def)

lemma invocations_launch:
  "invocations st
     (map (\<lambda>s. if path_exists w s then Popen s else Log WARNING (AnalysisMissing s)) ss)
   = (if st = Analysis then map Popen (filter (path_exists w) ss) else [])"
  by (induction ss) (auto simp add: invocations_def)

lemma invocations_wait: "invocations st (map Wait ps) = []"
  by (induction ps) (simp_all add: invocations_def)

lemma invocations_warnings: "invocations st (map (\<lambda>s. Log WARNING (AnalysisMissing s)) ss) = []"
  by (induction ss) (simp_all add: invocations_def)

lemma invocations_analysis:
  "invocations st (fst (run_analysis_parallel S w)) =
     (if st = Analysis \<and> interpreter w
      then map Popen (filter (path_exists w) (indicators S)) else [])"
proof (cases "interpreter w")
  case True
  then show ?thesis
    by (simp add: run_analysis_parallel_eq invocations_append invocations_launch
          invocations_wait invocations_Cons invocations_Nil)
next
  case False
  then show ?thesis
    by (simp add: run_analysis_parallel_no_interpreter invocations_append
          invocations_warnings invocations_Cons invocations_Nil)
qed

lemma analysis_returns: "interpreter w \<Longrightarrow> snd (run_analysis_parallel S w) = Inr ()"
  by (simp add: run_analysis_parallel_eq)

lemma init_paths:
  "ingestion_script (init ''/app'') = ''/app/data_ingestion/market_data_fetcher.py''"
  "alert_script (init ''/app'') = ''/app/alerting/signal_broadcaster.py''"
  "indicators (init ''/app'') =
     [''/app/technical_analysis/calc_ema_crossover.py'',
      ''/app/technical_analysis/calc_rsi_multi.py'',
      ''/app/technical_analysis/calc_ema_trend.py'',
      ''/app/technical_analysis/calc_macd_momentum.py'']"
  by (simp_all add: init_def path_join_def)

lemma world_ok_sel:
  "path_exists world_ok = (\<lambda>p. True)" "interpreter world_ok"
  "returncode world_ok = (\<lambda>p. 0)" "time_start world_ok = 0" "time_end world_ok = 1"
  by (simp_all add: world_ok_def)

lemma world_fail_sel:
  "path_exists world_fail = (\<lambda>p. True)" "interpreter world_fail"
  "returncode world_fail = (\<lambda>p. 1)" "time_start world_fail = 0" "time_end world_fail = 1"
  by (simp_all add: world_fail_def)

lemma world_no_ingestion_sel:
  "path_exists world_no_ingestion = (\<lambda>p. p \<noteq> ''/app/data_ingestion/market_data_fetcher.py'')"
  "interpreter world_no_ingestion" "returncode world_no_ingestion = (\<lambda>p. 0)"
  "time_start world_no_ingestion = 0" "time_end world_no_ingestion = 1"
  by (simp_all add: world_no_ingestion_def)


lemma world_rsi_fails_sel:
  "path_exists world_rsi_fails = (\<lambda>p. True)" "interpreter world_rsi_fails"
  "returncode world_rsi_fails =
     (\<lambda>p. if p = ''/app/technical_analysis/calc_rsi_multi.py'' then 1 else 0)"
  "time_start world_rsi_fails = 0" "time_end world_rsi_fails = 1"
  by (simp_all add: world_rsi_fails_def)

lemma world_no_python_sel:
  "path_exists world_no_python = (\<lambda>p. p \<noteq> ''/app/data_ingestion/market_data_fetcher.py'')"
  "\<not> interpreter world_no_python" "returncode world_no_python = (\<lambda>p. 0)"
  "time_start world_no_python = 0" "time_end world_no_python = 1"
  by (simp_all add: world_no_python_def)

subsection \<open>The trace and the outcome of a run, stage by stage\<close>

lemma execute_pipeline_trace:
  "fst (execute_pipeline S w) =
     (case run_ingestion S w of
        (e1, Inl err) \<Rightarrow> e1 @ [handler err]
      | (e1, Inr _) \<Rightarrow>
          (case run_analysis_parallel S w of
             (e2, Inl err) \<Rightarrow> e1 @ e2 @ [handler err]
           | (e2, Inr _) \<Rightarrow>
               e1 @ e2 @ fst (run_alerting S w)
                  @ [case snd (run_alerting S w) of Inl err \<Rightarrow> handler err
                     | Inr _ \<Rightarrow> Log INFO (FinishedIn (time_end w - time_start w))]))"
  by (auto simp add: execute_pipeline_def split: prod.splits sum.splits)

lemma execute_pipeline_outcome:
  "snd (execute_pipeline S w) =
     (case snd (run_ingestion S w) of
        Inl err \<Rightarrow> Aborted err
      | Inr _ \<Rightarrow>
          (case snd (run_analysis_parallel S w) of
             Inl err \<Rightarrow> Aborted err
           | Inr _ \<Rightarrow>
               (case snd (run_alerting S w) of Inl err \<Rightarrow> Aborted err | Inr _ \<Rightarrow> Completed)))"
  by (auto simp add: execute_pipeline_def split: prod.splits sum.splits)

lemma invocations_alerting:
  "invocations st (fst (run_alerting S w)) =
     (if st = Alerting \<and> path_exists w (alert_script S) \<and> interpreter w
      then [Run Alerting (alert_script S)] else [])"
  by (auto simp add: run_alerting_eq invocations_Cons invocations_Nil)


lemma invocations_handler: "invocations st [handler err] = []"
  by (cases err) (simp_all add: invocations_Cons invocations_Nil)

lemma invocations_last:
  "invocations st
     [case r of Inl err \<Rightarrow> handler err | Inr (u::unit) \<Rightarrow> Log INFO (FinishedIn d)] = []"
  by (cases r) (simp_all add: invocations_handler, simp add: invocations_Cons invocations_Nil)

lemma invocations_execute_pipeline_after_analysis:
  assumes "snd (run_ingestion S w) = Inr ()" and "snd (run_analysis_parallel S w) = Inr ()"
  shows "invocations st (fst (execute_pipeline S w)) =
           invocations st (fst (run_ingestion S w))
           @ invocations st (fst (run_analysis_parallel S w))
           @ invocations st (fst (run_alerting S w))"
  using assms
  by (cases "run_ingestion S w", cases "run_analysis_parallel S w")
     (simp add: execute_pipeline_trace invocations_append invocations_last)

text \<open>
  The second \<^verbatim>\<open>except\<close> clause is reached: without the interpreter and with the ingestion
  script missing, the first \<^verbatim>\<open>Popen\<close> raises and the run is abandoned before alerting.
\<close>

lemma interpreter_missing_example:
  "execute_pipeline (init ''/app'') world_no_python =
     ([Log ERROR (IngestionNotFound ''/app/data_ingestion/market_data_fetcher.py''),
       Log INFO StartingAnalysis,
       Log ERROR (CriticalSchedulerError (FileNotFoundError ''python''))],
      Aborted (FileNotFoundError ''python''))"
  by (simp add: execute_pipeline_def run_ingestion_eq run_analysis_parallel_no_interpreter
        init_paths world_no_python_sel)

subsection \<open>A failing ingestion aborts the run\<close>

text \<open>
  C1. When the ingestion script exists and its process ends with a non-zero exit status,
  the run consists of the start of the ingestion task and the record of the failure: no
  analysis task and no alerting task is started, and the run ends as \<open>Aborted\<close>. (Where
  the interpreter cannot be spawned, so that there is no process and no exit status, the
  run is aborted as well, by the other handler, and again nothing else is started.)
\<close>

theorem ingestion_failure_aborts:
  assumes "path_exists w (ingestion_script S)"
      and "returncode w (ingestion_script S) \<noteq> 0"
    shows "execute_pipeline S w =
             (if interpreter w
              then ([Log INFO (StartingIngestion (ingestion_script S)),
                     Run Ingestion (ingestion_script S),
                     Log ERROR (PipelineFailed
                       (CalledProcessError (returncode w (ingestion_script S))
                          (ingestion_script S)))],
                    Aborted (CalledProcessError (returncode w (ingestion_script S))
                               (ingestion_script S)))
              else ([Log INFO (StartingIngestion (ingestion_script S)),
                     Log ERROR (CriticalSchedulerError (FileNotFoundError ''python''))],
                    Aborted (FileNotFoundError ''python'')))
           \<and> invocations Analysis (fst (execute_pipeline S w)) = []
           \<and> invocations Alerting (fst (execute_pipeline S w)) = []"
  using assms
  by (simp add: execute_pipeline_def run_ingestion_eq invocations_def)

theorem ingestion_failure_aborts_witness:
  "path_exists world_fail (ingestion_script (init ''/app''))
   \<and> returncode world_fail (ingestion_script (init ''/app'')) \<noteq> 0
   \<and> execute_pipeline (init ''/app'') world_fail =
       ([Log INFO (StartingIngestion ''/app/data_ingestion/market_data_fetcher.py''),
         Run Ingestion ''/app/data_ingestion/market_data_fetcher.py'',
         Log ERROR (PipelineFailed
           (CalledProcessError 1 ''/app/data_ingestion/market_data_fetcher.py''))],
        Aborted (CalledProcessError 1 ''/app/data_ingestion/market_data_fetcher.py''))
   \<and> invocations Analysis (fst (execute_pipeline (init ''/app'') world_fail)) = []
   \<and> invocations Alerting (fst (execute_pipeline (init ''/app'') world_fail)) = []"
proof -
  have h1: "path_exists world_fail (ingestion_script (init ''/app''))"
    by (simp add: world_fail_def)
  have h2: "returncode world_fail (ingestion_script (init ''/app'')) \<noteq> 0"
    by (simp add: world_fail_def)
  have r: "returncode world_fail ''/app/data_ingestion/market_data_fetcher.py'' = 1"
    by (simp add: world_fail_def)
  have i: "interpreter world_fail"
    by (simp add: world_fail_def)
  from ingestion_failure_aborts [OF h1 h2] h1 h2 show ?thesis
    by (simp add: init_paths r i invocations_Cons invocations_Nil)
qed

subsection \<open>A missing ingestion script\<close>

text \<open>
  C4, as the code has it. When the ingestion script does not exist, \<^verbatim>\<open>run_ingestion\<close> logs
  the error and returns normally: the ingestion task is not started and the run is not
  aborted by it. Where the interpreter can be spawned, every analysis script that exists
  is then started, the alerting script is run if it exists, and the outcome is that of
  the alerting stage.
\<close>

theorem missing_ingestion_skipped:
  assumes "\<not> path_exists w (ingestion_script S)"
      and "interpreter w"
  shows "run_ingestion S w = ([Log ERROR (IngestionNotFound (ingestion_script S))], Inr ())
         \<and> invocations Ingestion (fst (execute_pipeline S w)) = []
         \<and> invocations Analysis (fst (execute_pipeline S w)) =
             map Popen (filter (path_exists w) (indicators S))
         \<and> invocations Alerting (fst (execute_pipeline S w)) =
             (if path_exists w (alert_script S) then [Run Alerting (alert_script S)] else [])
         \<and> snd (execute_pipeline S w) =
             (case snd (run_alerting S w) of Inl err \<Rightarrow> Aborted err | Inr u \<Rightarrow> Completed)"
proof -
  have r: "run_ingestion S w = ([Log ERROR (IngestionNotFound (ingestion_script S))], Inr ())"
    using assms by (simp add: run_ingestion_eq)
  then have ok: "snd (run_ingestion S w) = Inr ()" by simp
  have ok2: "snd (run_analysis_parallel S w) = Inr ()"
    using assms(2) by (rule analysis_returns)
  have o: "snd (execute_pipeline S w) =
             (case snd (run_alerting S w) of Inl err \<Rightarrow> Aborted err | Inr u \<Rightarrow> Completed)"
    by (simp add: execute_pipeline_outcome ok ok2)
  show ?thesis
    using assms r o
    by (simp add: invocations_execute_pipeline_after_analysis [OF ok ok2]
          invocations_analysis invocations_alerting invocations_Cons invocations_Nil)
qed

theorem missing_ingestion_skipped_witness:
  "\<not> path_exists world_no_ingestion (ingestion_script (init ''/app''))
   \<and> interpreter world_no_ingestion
   \<and> invocations Ingestion (fst (execute_pipeline (init ''/app'') world_no_ingestion)) = []
   \<and> invocations Alerting (fst (execute_pipeline (init ''/app'') world_no_ingestion)) =
       [Run Alerting ''/app/alerting/signal_broadcaster.py'']
   \<and> snd (execute_pipeline (init ''/app'') world_no_ingestion) = Completed"
proof -
  have h: "\<not> path_exists world_no_ingestion (ingestion_script (init ''/app''))"
    by (simp add: world_no_ingestion_def init_paths)
  have i: "interpreter world_no_ingestion"
    by (simp add: world_no_ingestion_def)
  have a: "path_exists world_no_ingestion (alert_script (init ''/app''))"
    by (simp add: world_no_ingestion_def init_paths)
  have s: "snd (run_alerting (init ''/app'') world_no_ingestion) = Inr ()"
    by (simp add: run_alerting_eq world_no_ingestion_sel init_paths)
  from missing_ingestion_skipped [OF h i] h i a s show ?thesis
    by (simp add: init_paths)
qed

text \<open>
  The run in which only the ingestion script is missing: it is completed, the four
  indicators are started and the alert script is run.
\<close>

theorem missing_ingestion_not_fatal_example:
  "snd (execute_pipeline (init ''/app'') world_no_ingestion) = Completed
   \<and> invocations Analysis (fst (execute_pipeline (init ''/app'') world_no_ingestion)) =
       [Popen ''/app/technical_analysis/calc_ema_crossover.py'',
        Popen ''/app/technical_analysis/calc_rsi_multi.py'',
        Popen ''/app/technical_analysis/calc_ema_trend.py'',
        Popen ''/app/technical_analysis/calc_macd_momentum.py'']
   \<and> invocations Alerting (fst (execute_pipeline (init ''/app'') world_no_ingestion)) =
       [Run Alerting ''/app/alerting/signal_broadcaster.py'']"
  by (simp add: execute_pipeline_def run_ingestion_eq run_analysis_parallel_eq
        run_alerting_eq init_paths world_no_ingestion_sel invocations_Cons invocations_Nil)

subsection \<open>The analysis stage\<close>

text \<open>
  C5, as the code has it. The analysis stage records no failed task: it reads no exit
  status, so it is the same stage whatever the exit statuses are. Where the interpreter
  can be spawned (or no indicator script exists) it starts every indicator script that
  exists, logs a warning for every one that does not, waits for every process it started
  and returns nothing; where the interpreter cannot be spawned, the first \<^verbatim>\<open>Popen\<close>
  raises, after the warnings for the missing scripts before it.
\<close>

theorem analysis_stage_drops_exit_status:
  "run_analysis_parallel S (w\<lparr>returncode := r\<rparr>) = run_analysis_parallel S w
   \<and> run_analysis_parallel S w =
      (if interpreter w \<or> filter (path_exists w) (indicators S) = []
       then (Log INFO StartingAnalysis
               # map (\<lambda>s. if path_exists w s then Popen s else Log WARNING (AnalysisMissing s))
                   (indicators S)
               @ map Wait (filter (path_exists w) (indicators S))
               @ [Log INFO AllCalculated],
             Inr ())
       else (Log INFO StartingAnalysis
               # map (\<lambda>s. Log WARNING (AnalysisMissing s))
                   (takeWhile (\<lambda>s. \<not> path_exists w s) (indicators S)),
             Inl (FileNotFoundError ''python'')))"
proof
  show "run_analysis_parallel S (w\<lparr>returncode := r\<rparr>) = run_analysis_parallel S w"
    by (simp add: run_analysis_parallel_def launch_indicators_returncode wait_all_eq
          split: prod.splits sum.splits)
next
  show "run_analysis_parallel S w =
      (if interpreter w \<or> filter (path_exists w) (indicators S) = []
       then (Log INFO StartingAnalysis
               # map (\<lambda>s. if path_exists w s then Popen s else Log WARNING (AnalysisMissing s))
                   (indicators S)
               @ map Wait (filter (path_exists w) (indicators S))
               @ [Log INFO AllCalculated],
             Inr ())
       else (Log INFO StartingAnalysis
               # map (\<lambda>s. Log WARNING (AnalysisMissing s))
                   (takeWhile (\<lambda>s. \<not> path_exists w s) (indicators S)),
             Inl (FileNotFoundError ''python'')))"
  proof (cases "interpreter w")
    case True
    then show ?thesis by (simp add: run_analysis_parallel_eq)
  next
    case False
    then show ?thesis
      by (simp add: run_analysis_parallel_no_interpreter launch_all_missing)
  qed
qed

text \<open>
  Two worlds that differ only in the exit status of one indicator: the design's stage
  result differs, the stage of the code does not.
\<close>

theorem analysis_failure_not_recorded_example:
  "run_analysis_parallel (init ''/app'') world_rsi_fails
     = run_analysis_parallel (init ''/app'') world_ok
   \<and> analysis_result_spec (init ''/app'') world_rsi_fails
     = PartialFailure [''/app/technical_analysis/calc_rsi_multi.py'']
   \<and> analysis_result_spec (init ''/app'') world_ok = Success"
  by (simp add: run_analysis_parallel_eq analysis_result_spec_def init_paths
        world_rsi_fails_sel world_ok_sel)




subsection \<open>The join barrier\<close>

lemma started_append: "started (xs @ ys) = started xs @ started ys"
  by (induction xs rule: started.induct) simp_all

lemma waited_append: "waited (xs @ ys) = waited xs @ waited ys"
  by (induction xs rule: waited.induct) simp_all

lemma started_Cons_Nil: "started (e # es) = [] \<Longrightarrow> started es = []"
  by (cases e) simp_all

lemma waited_Cons_Nil: "waited (e # es) = [] \<Longrightarrow> waited es = []"
  by (cases e) simp_all

lemma started_launch:
  "started (map (\<lambda>s. if path_exists w s then Popen s else Log WARNING (AnalysisMissing s)) ss)
     = filter (path_exists w) ss"
  by (induction ss) simp_all

lemma waited_launch:
  "waited (map (\<lambda>s. if path_exists w s then Popen s else Log WARNING (AnalysisMissing s)) ss)
     = []"
  by (induction ss) simp_all

lemma quiet_launch:
  "list_all (\<lambda>x. \<not> checkpoint x)
     (map (\<lambda>s. if path_exists w s then Popen s else Log WARNING (AnalysisMissing s)) ss)"
  by (induction ss) (simp_all add: checkpoint_def)

lemma started_wait: "started (map Wait ps) = []"
  by (induction ps) simp_all

lemma waited_wait: "waited (map Wait ps) = ps"
  by (induction ps) simp_all

lemma quiet_wait: "list_all (\<lambda>x. \<not> checkpoint x) (map Wait ps)"
  by (induction ps) (simp_all add: checkpoint_def)

lemma started_warnings: "started (map (\<lambda>s. Log WARNING (AnalysisMissing s)) ss) = []"
  by (induction ss) simp_all

lemma waited_warnings: "waited (map (\<lambda>s. Log WARNING (AnalysisMissing s)) ss) = []"
  by (induction ss) simp_all

lemma quiet_warnings:
  "list_all (\<lambda>x. \<not> checkpoint x) (map (\<lambda>s. Log WARNING (AnalysisMissing s)) ss)"
  by (induction ss) (simp_all add: checkpoint_def)

lemma quiet_handler: "\<not> checkpoint (handler err)"
  by (cases err) (simp_all add: checkpoint_def)

lemma started_handler: "started [handler err] = []"
  by (cases err) simp_all

lemma waited_handler: "waited [handler err] = []"
  by (cases err) simp_all

lemma ingestion_quiet:
  "list_all (\<lambda>x. \<not> checkpoint x) (fst (run_ingestion S w))
   \<and> started (fst (run_ingestion S w)) = [] \<and> waited (fst (run_ingestion S w)) = []"
  by (simp add: run_ingestion_eq checkpoint_def)

lemma alerting_no_process:
  "started (fst (run_alerting S w)) = [] \<and> waited (fst (run_alerting S w)) = []"
  by (simp add: run_alerting_eq)

lemma last_no_process:
  "started [case r of Inl err \<Rightarrow> handler err | Inr (u::unit) \<Rightarrow> Log INFO (FinishedIn d)] = []
   \<and> waited [case r of Inl err \<Rightarrow> handler err | Inr (u::unit) \<Rightarrow> Log INFO (FinishedIn d)] = []"
  by (cases r) (simp_all add: started_handler waited_handler)

text \<open>
  The analysis stage either raises, and then reports nothing, or ends with the report,
  before which every process it started has been waited for.
\<close>

lemma analysis_raises_quiet:
  assumes "snd (run_analysis_parallel S w) = Inl err"
  shows "list_all (\<lambda>x. \<not> checkpoint x) (fst (run_analysis_parallel S w))"
proof (cases "interpreter w")
  case True
  with assms show ?thesis by (simp add: run_analysis_parallel_eq)
next
  case False
  have "\<not> checkpoint (Log INFO StartingAnalysis)"
    by (simp add: checkpoint_def)
  with False assms show ?thesis
    by (simp add: run_analysis_parallel_no_interpreter quiet_warnings split: if_splits)
qed

lemma analysis_returns_joined:
  assumes "snd (run_analysis_parallel S w) = Inr ()"
  shows "\<exists>X. fst (run_analysis_parallel S w) = X @ [Log INFO AllCalculated]
             \<and> list_all (\<lambda>x. \<not> checkpoint x) X
             \<and> waited X = started X
             \<and> started X = filter (path_exists w) (indicators S)"
proof (cases "interpreter w")
  case True
  let ?X = "Log INFO StartingAnalysis
        # map (\<lambda>s. if path_exists w s then Popen s else Log WARNING (AnalysisMissing s))
            (indicators S)
        @ map Wait (filter (path_exists w) (indicators S))"
  have "fst (run_analysis_parallel S w) = ?X @ [Log INFO AllCalculated]"
    using True by (simp add: run_analysis_parallel_eq)
  moreover have "list_all (\<lambda>x. \<not> checkpoint x) ?X"
    using quiet_launch [of w "indicators S"] quiet_wait [of "filter (path_exists w) (indicators S)"]
    by (simp add: checkpoint_def)
  moreover have "waited ?X = started ?X"
    by (simp add: started_append waited_append started_launch waited_launch started_wait
          waited_wait)
  moreover have "started ?X = filter (path_exists w) (indicators S)"
    by (simp add: started_append started_launch started_wait)
  ultimately show ?thesis by blast
next
  case False
  let ?X = "Log INFO StartingAnalysis
        # map (\<lambda>s. Log WARNING (AnalysisMissing s)) (indicators S)"
  from False assms have none: "filter (path_exists w) (indicators S) = []"
    by (simp add: run_analysis_parallel_no_interpreter split: if_splits)
  then have "fst (run_analysis_parallel S w) = ?X @ [Log INFO AllCalculated]"
    using False by (simp add: run_analysis_parallel_no_interpreter)
  moreover have "list_all (\<lambda>x. \<not> checkpoint x) ?X"
    using quiet_warnings [of "indicators S"] by (simp add: checkpoint_def)
  moreover have "waited ?X = started ?X"
    by (simp add: started_warnings waited_warnings)
  moreover have "started ?X = filter (path_exists w) (indicators S)"
    by (simp add: started_warnings none)
  ultimately show ?thesis by blast
qed

lemma execute_pipeline_shape:
  "list_all (\<lambda>x. \<not> checkpoint x) (fst (execute_pipeline S w))
   \<or> (\<exists>X T. fst (execute_pipeline S w) = X @ Log INFO AllCalculated # T
            \<and> list_all (\<lambda>x. \<not> checkpoint x) X
            \<and> waited X = started X
            \<and> started X = filter (path_exists w) (indicators S)
            \<and> started T = [] \<and> waited T = [])"
proof (cases "run_ingestion S w")
  case (Pair e1 r1)
  then have e1: "e1 = fst (run_ingestion S w)" by simp
  note q1 = ingestion_quiet [of S w, folded e1]
  show ?thesis
  proof (cases r1)
    case (Inl err)
    with Pair q1 have "list_all (\<lambda>x. \<not> checkpoint x) (fst (execute_pipeline S w))"
      by (simp add: execute_pipeline_trace quiet_handler)
    then show ?thesis by blast
  next
    case (Inr u)
    show ?thesis
    proof (cases "snd (run_analysis_parallel S w)")
      case (Inl err)
      then have "list_all (\<lambda>x. \<not> checkpoint x) (fst (run_analysis_parallel S w))"
        by (rule analysis_raises_quiet)
      with Pair Inr Inl q1 have "list_all (\<lambda>x. \<not> checkpoint x) (fst (execute_pipeline S w))"
        by (cases "run_analysis_parallel S w")
           (simp add: execute_pipeline_trace quiet_handler)
      then show ?thesis by blast
    next
      case (Inr u2)
      then have "snd (run_analysis_parallel S w) = Inr ()" by simp
      from analysis_returns_joined [OF this] obtain X where
        X: "fst (run_analysis_parallel S w) = X @ [Log INFO AllCalculated]"
           "list_all (\<lambda>x. \<not> checkpoint x) X" "waited X = started X"
           "started X = filter (path_exists w) (indicators S)"
        by blast
      let ?T = "fst (run_alerting S w)
                  @ [case snd (run_alerting S w) of Inl err \<Rightarrow> handler err
                     | Inr _ \<Rightarrow> Log INFO (FinishedIn (time_end w - time_start w))]"
      have "fst (execute_pipeline S w) = (e1 @ X) @ Log INFO AllCalculated # ?T"
        using Pair \<open>r1 = Inr u\<close> Inr X(1)
        by (cases "run_analysis_parallel S w") (simp add: execute_pipeline_trace)
      moreover have "list_all (\<lambda>x. \<not> checkpoint x) (e1 @ X)"
        using q1 X(2) by simp
      moreover have "waited (e1 @ X) = started (e1 @ X)"
        using q1 X(3) by (simp add: started_append waited_append)
      moreover have "started (e1 @ X) = filter (path_exists w) (indicators S)"
        using q1 X(4) by (simp add: started_append)
      moreover have "started ?T = [] \<and> waited ?T = []"
        using alerting_no_process [of S w]
          last_no_process [where r = "snd (run_alerting S w)"
            and d = "time_end w - time_start w"]
        by (simp add: started_append waited_append)
      ultimately show ?thesis by blast
    qed
  qed
qed

lemma split_after_quiet:
  "list_all (\<lambda>x. \<not> checkpoint x) X \<Longrightarrow> X @ R = pre @ e # post \<Longrightarrow> checkpoint e \<Longrightarrow>
   \<exists>pre'. pre = X @ pre' \<and> R = pre' @ e # post"
proof (induction X arbitrary: pre)
  case Nil
  then show ?case by simp
next
  case (Cons x X)
  show ?case
  proof (cases pre)
    case Nil
    with Cons.prems show ?thesis by simp
  next
    case (Cons p pre0)
    with Cons.prems have "X @ R = pre0 @ e # post" and "p = x" by simp_all
    with Cons.IH [of pre0] Cons.prems obtain pre' where "pre0 = X @ pre'" "R = pre' @ e # post"
      by auto
    with Cons \<open>p = x\<close> show ?thesis by simp
  qed
qed

text \<open>
  C7. In every run, wherever the trace reports the end of the analysis stage or does
  anything of the alerting stage, every indicator process of the run has been started
  before (they are the indicator scripts that exist), \<^verbatim>\<open>p.wait()\<close> has returned for every
  one of them before, whatever its exit status, and none is started afterwards; and
  anything of the alerting stage comes after the report of the end of the analysis stage.
\<close>

theorem join_barrier:
  assumes "fst (execute_pipeline S w) = pre @ e # post"
      and "checkpoint e"
    shows "waited pre = started pre
           \<and> started pre = filter (path_exists w) (indicators S)
           \<and> started post = []
           \<and> (is_alerting e \<longrightarrow> Log INFO AllCalculated \<in> set pre)"
proof -
  from execute_pipeline_shape [of S w]
  consider (quiet) "list_all (\<lambda>x. \<not> checkpoint x) (fst (execute_pipeline S w))"
    | (joined) X T where "fst (execute_pipeline S w) = X @ Log INFO AllCalculated # T"
        "list_all (\<lambda>x. \<not> checkpoint x) X" "waited X = started X"
        "started X = filter (path_exists w) (indicators S)" "started T = []" "waited T = []"
    by blast
  then show ?thesis
  proof cases
    case quiet
    with assms have False by (simp add: list_all_iff)
    then show ?thesis ..
  next
    case joined
    from joined(1) assms(1) have "X @ Log INFO AllCalculated # T = pre @ e # post" by simp
    from split_after_quiet [OF joined(2) this assms(2)] obtain pre' where
      pre: "pre = X @ pre'" and R: "Log INFO AllCalculated # T = pre' @ e # post"
      by blast
    show ?thesis
    proof (cases pre')
      case Nil
      with R have "e = Log INFO AllCalculated" "post = T" by simp_all
      with pre Nil joined show ?thesis by simp
    next
      case (Cons a pre'')
      with R have a: "a = Log INFO AllCalculated" and T: "T = pre'' @ e # post" by simp_all
      from joined(5) T have "started pre'' = []" "started (e # post) = []"
        by (simp_all add: started_append)
      moreover from joined(6) T have "waited pre'' = []"
        by (simp add: waited_append)
      ultimately show ?thesis
        using pre Cons a joined(3,4) started_Cons_Nil [of e post]
        by (simp add: started_append waited_append)
    qed
  qed
qed

theorem join_barrier_witness:
  "fst (execute_pipeline (init ''/app'') world_rsi_fails) =
     trace_before_alerting
       @ Run Alerting ''/app/alerting/signal_broadcaster.py'' # [Log INFO (FinishedIn 1)]
   \<and> checkpoint (Run Alerting ''/app/alerting/signal_broadcaster.py'')
   \<and> waited trace_before_alerting =
       [''/app/technical_analysis/calc_ema_crossover.py'',
        ''/app/technical_analysis/calc_rsi_multi.py'',
        ''/app/technical_analysis/calc_ema_trend.py'',
        ''/app/technical_analysis/calc_macd_momentum.py'']
   \<and> started trace_before_alerting =
       [''/app/technical_analysis/calc_ema_crossover.py'',
        ''/app/technical_analysis/calc_rsi_multi.py'',
        ''/app/technical_analysis/calc_ema_trend.py'',
        ''/app/technical_analysis/calc_macd_momentum.py'']
   \<and> Log INFO AllCalculated \<in> set trace_before_alerting"
proof -
  have i: "interpreter world_rsi_fails"
    by (simp add: world_rsi_fails_def)
  have e: "path_exists world_rsi_fails = (\<lambda>p. True)"
    by (simp add: world_rsi_fails_def)
  have h1: "fst (execute_pipeline (init ''/app'') world_rsi_fails) =
     trace_before_alerting
       @ Run Alerting ''/app/alerting/signal_broadcaster.py'' # [Log INFO (FinishedIn 1)]"
    by (simp add: execute_pipeline_def run_ingestion_eq run_analysis_parallel_eq
          run_alerting_eq init_paths trace_before_alerting_def world_rsi_fails_sel)
  have h2: "checkpoint (Run Alerting ''/app/alerting/signal_broadcaster.py'')"
    by (simp add: checkpoint_def)
  from join_barrier [OF h1 h2] h1 h2 show ?thesis
    by (simp add: e init_paths)
qed

subsection \<open>The report of the elapsed duration\<close>

lemma duration_handler: "\<not> is_duration_report (handler err)"
  by (cases err) simp_all

lemma duration_launch:
  "filter is_duration_report
     (map (\<lambda>s. if path_exists w s then Popen s else Log WARNING (AnalysisMissing s)) ss) = []"
  by (induction ss) simp_all

lemma duration_wait: "filter is_duration_report (map Wait ps) = []"
  by (induction ps) simp_all

lemma duration_warnings:
  "filter is_duration_report (map (\<lambda>s. Log WARNING (AnalysisMissing s)) ss) = []"
  by (induction ss) simp_all

lemma duration_analysis: "filter is_duration_report (fst (run_analysis_parallel S w)) = []"
proof (cases "interpreter w")
  case True
  then show ?thesis
    by (simp add: run_analysis_parallel_eq duration_launch duration_wait)
next
  case False
  then show ?thesis
    by (simp add: run_analysis_parallel_no_interpreter duration_warnings)
qed

lemma duration_ingestion: "filter is_duration_report (fst (run_ingestion S w)) = []"
  by (simp add: run_ingestion_eq)

lemma duration_alerting: "filter is_duration_report (fst (run_alerting S w)) = []"
  by (simp add: run_alerting_eq)

text \<open>
  C8, as the code has it. A run reports its elapsed duration exactly when it is
  \<open>Completed\<close>, and then once, as the difference of the two clock readings; a run that is
  \<open>Aborted\<close> logs the error only.
\<close>

theorem duration_reported_iff_completed:
  "filter is_duration_report (fst (execute_pipeline S w)) =
     (if snd (execute_pipeline S w) = Completed
      then [Log INFO (FinishedIn (time_end w - time_start w))] else [])
   \<and> reports_duration (fst (execute_pipeline S w)) = (snd (execute_pipeline S w) = Completed)"
proof -
  have "filter is_duration_report (fst (execute_pipeline S w)) =
     (if snd (execute_pipeline S w) = Completed
      then [Log INFO (FinishedIn (time_end w - time_start w))] else [])"
  proof (cases "run_ingestion S w")
    case (Pair e1 r)
    then have e1: "filter is_duration_report e1 = []"
      using duration_ingestion [of S w] by simp
    show ?thesis
    proof (cases r)
      case (Inl err)
      with Pair e1 show ?thesis
        by (simp add: execute_pipeline_trace execute_pipeline_outcome duration_handler)
    next
      case (Inr u)
      show ?thesis
      proof (cases "run_analysis_parallel S w")
        case (Pair e2 r2)
        then have e2: "filter is_duration_report e2 = []"
          using duration_analysis [of S w] by simp
        show ?thesis
        proof (cases r2)
          case (Inl err)
          with Pair \<open>run_ingestion S w = (e1, r)\<close> Inr e1 e2 show ?thesis
            by (simp add: execute_pipeline_trace execute_pipeline_outcome duration_handler)
        next
          case (Inr u2)
          with Pair \<open>run_ingestion S w = (e1, r)\<close> \<open>r = Inr u\<close> e1 e2 show ?thesis
            by (cases "snd (run_alerting S w)")
               (simp_all add: execute_pipeline_trace execute_pipeline_outcome duration_handler
                  duration_alerting)
        qed
      qed
    qed
  qed
  then show ?thesis by (simp add: reports_duration_def)
qed

text \<open>The run whose ingestion task fails is aborted and reports no duration.\<close>

theorem no_duration_on_abort_example:
  "snd (execute_pipeline (init ''/app'') world_fail) =
     Aborted (CalledProcessError 1 ''/app/data_ingestion/market_data_fetcher.py'')
   \<and> \<not> reports_duration (fst (execute_pipeline (init ''/app'') world_fail))"
  by (simp add: execute_pipeline_def run_ingestion_eq init_paths reports_duration_def
        world_fail_sel)

subsection \<open>The dict of executed minutes\<close>

lemma map_of_reset_others:
  "map_of (reset_others c ks em) k =
     (if k \<in> set ks \<and> k \<noteq> c then Some False else map_of em k)"
  by (induction ks arbitrary: em) (auto simp add: update_conv')

lemma keys_update: "k \<in> fst ` set em \<Longrightarrow> map fst (AList.update k v em) = map fst em"
  by (simp add: update_keys)

lemma keys_reset_others:
  "set ks \<subseteq> fst ` set em \<Longrightarrow> map fst (reset_others c ks em) = map fst em"
proof (induction ks arbitrary: em)
  case Nil
  then show ?case by simp
next
  case (Cons m ms)
  then have m: "m \<in> fst ` set em" and ms: "set ms \<subseteq> fst ` set em" by simp_all
  have "set ms \<subseteq> fst ` set (AList.update m False em)"
    using ms by (auto simp add: dom_update)
  then have "map fst (reset_others c ms (AList.update m False em)) = map fst em"
    using Cons.IH [of "AList.update m False em"] m by (simp add: keys_update)
  moreover have "map fst (reset_others c ms em) = map fst em"
    using Cons.IH [OF ms] .
  ultimately show ?case by simp
qed

lemma map_of_mark_executed:
  "map_of (mark_executed m em) k =
     (if k = m then Some True else if k \<in> fst ` set em then Some False else None)"
  by (auto simp add: mark_executed_def Let_def map_of_reset_others update_conv' update_keys
        map_of_eq_None_iff)

lemma keys_mark_executed:
  assumes "m \<in> fst ` set em"
  shows "map fst (mark_executed m em) = map fst em"
proof -
  have k: "map fst (AList.update m True em) = map fst em"
    using assms by (rule keys_update)
  have "set (map fst (AList.update m True em)) \<subseteq> fst ` set (AList.update m True em)"
    by simp
  then have "map fst (reset_others m (map fst (AList.update m True em)) (AList.update m True em))
      = map fst (AList.update m True em)"
    by (rule keys_reset_others)
  then show ?thesis by (simp add: mark_executed_def Let_def k)
qed

lemma poll_quiet:
  "map_of em (minute (fst tick)) \<noteq> Some False \<Longrightarrow> poll S tick em = ([Sleep 10], em)"
  by (auto simp add: poll_def split: option.splits bool.splits)

lemma poll_admit:
  "map_of em (minute (fst tick)) = Some False \<Longrightarrow>
   poll S tick em =
     (Log INFO (Triggering (fst tick)) # fst (execute_pipeline S (snd tick)) @ [Sleep 10],
      mark_executed (minute (fst tick)) em)"
  by (simp add: poll_def)

lemma keys_poll: "map fst (snd (poll S tick em)) = map fst em"
proof (cases "map_of em (minute (fst tick)) = Some False")
  case True
  then have "map_of em (minute (fst tick)) \<noteq> None" by simp
  then have "minute (fst tick) \<in> fst ` set em" by (simp add: map_of_eq_None_iff)
  with True show ?thesis by (simp add: poll_admit keys_mark_executed)
next
  case False
  then show ?thesis by (simp add: poll_quiet)
qed

lemma scheduler_loop_Cons:
  "scheduler_loop S em (tick # ticks) =
     (fst (poll S tick em) # fst (scheduler_loop S (snd (poll S tick em)) ticks),
      snd (scheduler_loop S (snd (poll S tick em)) ticks))"
  by (simp split: prod.splits)

declare scheduler_loop.simps(2) [simp del]

lemma keys_scheduler_loop: "map fst (snd (scheduler_loop S em ticks)) = map fst em"
proof (induction ticks arbitrary: em)
  case Nil
  then show ?case by simp
next
  case (Cons t ts)
  show ?case using Cons.IH [of "snd (poll S t em)"] keys_poll [of S t em]
    by (simp only: scheduler_loop_Cons snd_conv)
qed

lemma start_scheduler_eq:
  "start_scheduler S ticks =
     ([Log INFO SchedulerStarted] # fst (scheduler_loop S executed_minutes_init ticks),
      snd (scheduler_loop S executed_minutes_init ticks))"
  by (simp add: start_scheduler_def split: prod.splits)

lemma keys_start_scheduler: "map fst (snd (start_scheduler S ticks)) = [0, 15, 30, 45]"
  using keys_scheduler_loop [of S executed_minutes_init ticks]
  by (simp add: start_scheduler_eq executed_minutes_init_def)

subsection \<open>One active window\<close>

lemma mark_executed_marks:
  assumes "map fst em = [0, 15, 30, 45]" and "m \<in> {0, 15, 30, 45}"
  shows "mark_executed m em = [(0, m = 0), (15, m = 15), (30, m = 30), (45, m = 45)]"
proof -
  from assms(1) obtain a b c d where em: "em = [(0, a), (15, b), (30, c), (45, d)]"
    by (auto simp add: map_eq_Cons_conv)
  from assms(2) show ?thesis
    by (auto simp add: em mark_executed_def)
qed

lemma admit_is_mark:
  assumes "map fst em = [0, 15, 30, 45]" and "map_of em m = Some False"
  shows "m \<in> {0, 15, 30, 45}"
proof -
  from assms(2) have "map_of em m \<noteq> None" by simp
  then have "m \<in> set (map fst em)" by (simp add: map_of_eq_None_iff)
  with assms(1) show ?thesis by simp
qed

lemma at_most_one_true_poll:
  assumes "map fst em = [0, 15, 30, 45]" and "at_most_one_true em"
  shows "at_most_one_true (snd (poll S tick em))"
proof (cases "map_of em (minute (fst tick)) = Some False")
  case True
  then have "minute (fst tick) \<in> {0, 15, 30, 45}" using assms(1) by (rule admit_is_mark [rotated])
  then show ?thesis
    using True mark_executed_marks [OF assms(1), of "minute (fst tick)"]
    by (auto simp add: poll_admit at_most_one_true_def)
next
  case False
  with assms(2) show ?thesis by (simp add: poll_quiet)
qed

lemma at_most_one_true_loop:
  "map fst em = [0, 15, 30, 45] \<Longrightarrow> at_most_one_true em \<Longrightarrow>
   at_most_one_true (snd (scheduler_loop S em ticks))"
proof (induction ticks arbitrary: em)
  case Nil
  then show ?case by simp
next
  case (Cons t ts)
  have "map fst (snd (poll S t em)) = [0, 15, 30, 45]"
    using Cons.prems(1) by (simp add: keys_poll)
  moreover have "at_most_one_true (snd (poll S t em))"
    using Cons.prems by (rule at_most_one_true_poll)
  ultimately have "at_most_one_true (snd (scheduler_loop S (snd (poll S t em)) ts))"
    by (rule Cons.IH)
  then show ?case by (simp only: scheduler_loop_Cons snd_conv)
qed

text \<open>
  C3. After any number of iterations of the polling loop from the initial dict, at most one
  flag of \<^verbatim>\<open>executed_minutes\<close> is true (the dict is read between iterations, where the
  loop reads it); and the update of lines 116 to 121 for a fired mark \<open>m\<close> leaves the dict
  with the four marks, the flag of \<open>m\<close> true and every other flag false.
\<close>

theorem single_active_window:
  "at_most_one_true (snd (start_scheduler S ticks))
   \<and> (m \<in> {0, 15, 30, 45} \<longrightarrow>
        mark_executed m (snd (start_scheduler S ticks)) =
          [(0, m = 0), (15, m = 15), (30, m = 30), (45, m = 45)])"
proof
  show "at_most_one_true (snd (start_scheduler S ticks))"
    using at_most_one_true_loop [of executed_minutes_init S ticks]
    by (simp add: start_scheduler_eq executed_minutes_init_def at_most_one_true_def)
next
  show "m \<in> {0, 15, 30, 45} \<longrightarrow>
        mark_executed m (snd (start_scheduler S ticks)) =
          [(0, m = 0), (15, m = 15), (30, m = 30), (45, m = 45)]"
    using mark_executed_marks [OF keys_start_scheduler, of m S ticks] by blast
qed


lemma start_one_tick:
  "snd (start_scheduler S [tick_0915]) = [(0, False), (15, True), (30, False), (45, False)]"
  by (simp add: start_scheduler_eq scheduler_loop_Cons executed_minutes_init_def poll_def
        tick_0915_def mark_executed_def)

theorem single_active_window_witness:
  "(30::nat) \<in> {0, 15, 30, 45}
   \<and> at_most_one_true (snd (start_scheduler (init ''/app'') [tick_0915]))
   \<and> mark_executed 30 (snd (start_scheduler (init ''/app'') [tick_0915])) =
        [(0, False), (15, False), (30, True), (45, False)]"
  using single_active_window [of "init ''/app''" "[tick_0915]" 30]
  by simp

subsection \<open>An iteration that does not fire\<close>

text \<open>
  C10. In an iteration whose minute is not one of the marks 0, 15, 30, 45, or is a mark
  whose flag is already true, the dict is unchanged and the iteration does nothing but
  sleep: no run is started, no script is invoked and nothing is logged.
\<close>

theorem quiet_poll_frame:
  assumes "minute now \<notin> {0, 15, 30, 45}
           \<or> map_of (snd (start_scheduler S ticks)) (minute now) = Some True"
  shows "poll S (now, w) (snd (start_scheduler S ticks)) =
           ([Sleep 10], snd (start_scheduler S ticks))"
proof -
  have "map_of (snd (start_scheduler S ticks)) (minute now) \<noteq> Some False"
  proof
    assume "map_of (snd (start_scheduler S ticks)) (minute now) = Some False"
    with keys_start_scheduler [of S ticks] have "minute now \<in> {0, 15, 30, 45}"
      by (rule admit_is_mark)
    moreover have "map_of (snd (start_scheduler S ticks)) (minute now) \<noteq> Some True"
      using \<open>map_of (snd (start_scheduler S ticks)) (minute now) = Some False\<close> by simp
    ultimately show False using assms by blast
  qed
  then show ?thesis by (simp add: poll_quiet)
qed

theorem quiet_poll_frame_witness:
  "map_of (snd (start_scheduler (init ''/app'') [tick_0915])) 15 = Some True
   \<and> poll (init ''/app'') (\<lparr> hour = 9, minute = 15, second = 10 \<rparr>, world_ok)
        (snd (start_scheduler (init ''/app'') [tick_0915])) =
      ([Sleep 10], [(0, False), (15, True), (30, False), (45, False)])"
proof -
  have h: "map_of (snd (start_scheduler (init ''/app'') [tick_0915]))
             (minute \<lparr> hour = 9, minute = 15, second = 10 \<rparr>) = Some True"
    by (simp add: start_one_tick)
  from quiet_poll_frame [of "\<lparr> hour = 9, minute = 15, second = 10 \<rparr>", OF disjI2, OF h] h
  show ?thesis by (simp add: start_one_tick)
qed

subsection \<open>No second run for the same mark\<close>

lemma admitted_Nil: "admitted [] = []"
  by (simp add: admitted_def List.map_filter_simps)

lemma admitted_Cons:
  "admitted (evs # rest) =
     (case admitted_minute evs of None \<Rightarrow> admitted rest | Some m \<Rightarrow> m # admitted rest)"
  by (cases "admitted_minute evs") (simp_all add: admitted_def List.map_filter_simps)

lemma admitted_poll_quiet:
  "map_of em (minute (fst tick)) \<noteq> Some False \<Longrightarrow> admitted_minute (fst (poll S tick em)) = None"
  by (simp add: poll_quiet)

lemma admitted_poll_admit:
  "map_of em (minute (fst tick)) = Some False \<Longrightarrow>
   admitted_minute (fst (poll S tick em)) = Some (minute (fst tick))"
  by (simp add: poll_admit)

lemma flagged_not_readmitted:
  "map_of em M = Some True \<Longrightarrow>
   (case admitted (fst (scheduler_loop S em ticks)) of
      [] \<Rightarrow> map_of (snd (scheduler_loop S em ticks)) M = Some True
    | m # ms \<Rightarrow> m \<noteq> M)"
proof (induction ticks arbitrary: em)
  case Nil
  then show ?case by (simp add: admitted_Nil)
next
  case (Cons t ts)
  show ?case
  proof (cases "map_of em (minute (fst t)) = Some False")
    case True
    with Cons.prems have "minute (fst t) \<noteq> M" by auto
    with True show ?thesis
      by (simp add: scheduler_loop_Cons admitted_Cons admitted_poll_admit)
  next
    case False
    then have "poll S t em = ([Sleep 10], em)" by (rule poll_quiet)
    then show ?thesis using Cons.IH [OF Cons.prems]
      by (simp add: scheduler_loop_Cons admitted_Cons split: list.splits)
  qed
qed

lemma same_minute_quiet:
  "map_of em M = Some True \<Longrightarrow> \<forall>t\<in>set ticks. minute (fst t) = M \<Longrightarrow>
   scheduler_loop S em ticks = (replicate (length ticks) [Sleep 10], em)"
proof (induction ticks)
  case Nil
  then show ?case by simp
next
  case (Cons t ts)
  then have "poll S t em = ([Sleep 10], em)" by (simp add: poll_quiet)
  with Cons show ?case by (simp add: scheduler_loop_Cons)
qed

lemma admitted_replicate_quiet: "admitted (replicate n [Sleep 10]) = []"
  by (induction n) (simp_all add: admitted_Nil admitted_Cons)

text \<open>
  C2. When an iteration admits a run for the mark \<open>M\<close> (the minute of \<open>now\<close>), the flag of
  \<open>M\<close> is set, and in every continuation of the loop either no run is admitted and
  \<^verbatim>\<open>shouldRun(M)\<close> is still false at its end, or the first run admitted is for another
  mark; in particular, iterations within the same minute admit no run at all.
\<close>

theorem admitted_once_per_mark:
  assumes "should_run em (minute now)"
  shows "admitted_minute (fst (poll S (now, w) em)) = Some (minute now)
         \<and> \<not> should_run (snd (poll S (now, w) em)) (minute now)
         \<and> (case admitted (fst (scheduler_loop S (snd (poll S (now, w) em)) ticks)) of
              [] \<Rightarrow> \<not> should_run (snd (scheduler_loop S (snd (poll S (now, w) em)) ticks))
                                  (minute now)
            | m # ms \<Rightarrow> m \<noteq> minute now)
         \<and> ((\<forall>t\<in>set ticks. minute (fst t) = minute now) \<longrightarrow>
              admitted (fst (scheduler_loop S (snd (poll S (now, w) em)) ticks)) = [])"
proof -
  let ?em' = "snd (poll S (now, w) em)"
  from assms have a: "map_of em (minute (fst (now, w))) = Some False"
    by (simp add: should_run_def)
  then have p: "poll S (now, w) em =
      (Log INFO (Triggering now) # fst (execute_pipeline S w) @ [Sleep 10],
       mark_executed (minute now) em)"
    using poll_admit [of em "(now, w)" S] by simp
  have f: "map_of ?em' (minute now) = Some True"
    by (simp add: p map_of_mark_executed)
  have 1: "admitted_minute (fst (poll S (now, w) em)) = Some (minute now)"
    by (simp add: p)
  have 2: "\<not> should_run ?em' (minute now)"
    using f by (simp add: should_run_def)
  have 3: "(case admitted (fst (scheduler_loop S ?em' ticks)) of
              [] \<Rightarrow> \<not> should_run (snd (scheduler_loop S ?em' ticks)) (minute now)
            | m # ms \<Rightarrow> m \<noteq> minute now)"
    using flagged_not_readmitted [OF f, of S ticks]
    by (simp add: should_run_def split: list.splits)
  have 4: "(\<forall>t\<in>set ticks. minute (fst t) = minute now) \<longrightarrow>
              admitted (fst (scheduler_loop S ?em' ticks)) = []"
    using same_minute_quiet [OF f, of ticks S] by (simp add: admitted_replicate_quiet)
  from 1 2 3 4 show ?thesis by blast
qed

theorem admitted_once_per_mark_witness:
  "should_run executed_minutes_init 15
   \<and> admitted (fst (scheduler_loop (init ''/app'')
        (snd (poll (init ''/app'') tick_0915 executed_minutes_init))
        [(\<lparr> hour = 9, minute = 15, second = 10 \<rparr>, world_ok),
         (\<lparr> hour = 9, minute = 15, second = 20 \<rparr>, world_ok)])) = []
   \<and> \<not> should_run (snd (scheduler_loop (init ''/app'')
        (snd (poll (init ''/app'') tick_0915 executed_minutes_init))
        [(\<lparr> hour = 9, minute = 15, second = 10 \<rparr>, world_ok),
         (\<lparr> hour = 9, minute = 15, second = 20 \<rparr>, world_ok)])) 15"
proof -
  let ?now = "\<lparr> hour = 9, minute = 15, second = 0 \<rparr>"
  let ?ticks = "[(\<lparr> hour = 9, minute = 15, second = 10 \<rparr>, world_ok),
                 (\<lparr> hour = 9, minute = 15, second = 20 \<rparr>, world_ok)]"
  have h: "should_run executed_minutes_init (minute ?now)"
    by (simp add: should_run_def executed_minutes_init_def)
  have q: "\<forall>t\<in>set ?ticks. minute (fst t) = minute ?now" by simp
  note t = admitted_once_per_mark [OF h, of "init ''/app''" world_ok ?ticks]
  from t q have a: "admitted (fst (scheduler_loop (init ''/app'')
        (snd (poll (init ''/app'') (?now, world_ok) executed_minutes_init)) ?ticks)) = []"
    by blast
  from t have "case admitted (fst (scheduler_loop (init ''/app'')
        (snd (poll (init ''/app'') (?now, world_ok) executed_minutes_init)) ?ticks)) of
      [] \<Rightarrow> \<not> should_run (snd (scheduler_loop (init ''/app'')
        (snd (poll (init ''/app'') (?now, world_ok) executed_minutes_init)) ?ticks)) (minute ?now)
    | m # ms \<Rightarrow> m \<noteq> minute ?now"
    by blast
  with a have b: "\<not> should_run (snd (scheduler_loop (init ''/app'')
        (snd (poll (init ''/app'') (?now, world_ok) executed_minutes_init)) ?ticks)) (minute ?now)"
    by simp
  from h a b show ?thesis by (simp add: tick_0915_def)
qed

subsection \<open>An hour of polling\<close>

lemma execute_pipeline_all_succeed:
  assumes "all_succeed S w"
  shows "execute_pipeline S w =
           ([Log INFO (StartingIngestion (ingestion_script S)),
             Run Ingestion (ingestion_script S),
             Log INFO StartingAnalysis]
            @ map Popen (indicators S)
            @ map Wait (indicators S)
            @ [Log INFO AllCalculated,
               Log INFO (RunningBroadcaster (alert_script S)),
               Run Alerting (alert_script S),
               Log INFO (FinishedIn (time_end w - time_start w))],
            Completed)"
proof -
  from assms have ex: "\<forall>p\<in>set (indicators S). path_exists w p"
    by (simp add: all_succeed_def list_all_iff)
  then have f: "filter (path_exists w) (indicators S) = indicators S"
    by simp
  have m: "map (\<lambda>s. if path_exists w s then Popen s else Log WARNING (AnalysisMissing s))
             (indicators S) = map Popen (indicators S)"
    using ex by simp
  from assms have i: "interpreter w"
    by (simp add: all_succeed_def)
  from assms show ?thesis
    by (simp add: all_succeed_def execute_pipeline_def run_ingestion_eq run_alerting_eq
          run_analysis_parallel_eq [OF i] f m)
qed

lemma poll_admit_all_succeed:
  assumes "all_succeed S w" and "map_of em (minute now) = Some False"
  shows "poll S (now, w) em = (full_run S w now, mark_executed (minute now) em)"
  using assms(2) poll_admit [of em "(now, w)" S]
  by (simp add: execute_pipeline_all_succeed [OF assms(1)] full_run_def)

lemma scheduler_loop_append:
  "scheduler_loop S em (xs @ ys) =
     (fst (scheduler_loop S em xs) @ fst (scheduler_loop S (snd (scheduler_loop S em xs)) ys),
      snd (scheduler_loop S (snd (scheduler_loop S em xs)) ys))"
  by (induction xs arbitrary: em) (simp_all add: scheduler_loop_Cons)

lemma minute_quiet:
  assumes "map_of em m \<noteq> Some False"
  shows "scheduler_loop S em (minute_ticks h w m) = (replicate 6 [Sleep 10], em)"
proof -
  have p: "\<And>s. poll S (\<lparr> hour = h, minute = m, second = s \<rparr>, w) em = ([Sleep 10], em)"
    using assms by (simp add: poll_quiet)
  show ?thesis
    by (simp add: minute_ticks_def scheduler_loop_Cons p numeral_eq_Suc)
qed

lemma minute_admit:
  assumes "all_succeed S w" and "map_of em m = Some False"
  shows "scheduler_loop S em (minute_ticks h w m) =
           (full_run S w \<lparr> hour = h, minute = m, second = 0 \<rparr> # replicate 5 [Sleep 10],
            mark_executed m em)"
proof -
  have p: "poll S (\<lparr> hour = h, minute = m, second = 0 \<rparr>, w) em =
             (full_run S w \<lparr> hour = h, minute = m, second = 0 \<rparr>, mark_executed m em)"
    using poll_admit_all_succeed [OF assms(1), of em "\<lparr> hour = h, minute = m, second = 0 \<rparr>"]
      assms(2) by simp
  have "map_of (mark_executed m em) m \<noteq> Some False"
    by (simp add: map_of_mark_executed)
  then have q: "\<And>s. poll S (\<lparr> hour = h, minute = m, second = s \<rparr>, w) (mark_executed m em) =
                  ([Sleep 10], mark_executed m em)"
    by (simp add: poll_quiet)
  show ?thesis
    by (simp add: minute_ticks_def scheduler_loop_Cons p q numeral_eq_Suc)
qed

lemma minutes_quiet:
  assumes "\<forall>m\<in>set ms. map_of em m \<noteq> Some False"
  shows "scheduler_loop S em (concat (map (minute_ticks h w) ms)) =
           (replicate (6 * length ms) [Sleep 10], em)"
  using assms
proof (induction ms)
  case Nil
  then show ?case by simp
next
  case (Cons m ms)
  then have 1: "scheduler_loop S em (minute_ticks h w m) = (replicate 6 [Sleep 10], em)"
    by (simp add: minute_quiet)
  from Cons have 2: "scheduler_loop S em (concat (map (minute_ticks h w) ms)) =
           (replicate (6 * length ms) [Sleep 10], em)"
    by simp
  show ?case
    by (simp add: scheduler_loop_append 1 2 replicate_add [symmetric])
qed

lemma sim_clock_minutes:
  "map (\<lambda>d. (d, w)) (sim_clock h) = concat (map (minute_ticks h w) [0 ..< 60])"
proof -
  have "minute_ticks h w =
          (\<lambda>m. map (\<lambda>s. (\<lparr> hour = h, minute = m, second = s \<rparr>, w)) [0, 10, 20, 30, 40, 50])"
    by (rule ext) (simp add: minute_ticks_def)
  then show ?thesis
    by (simp add: sim_clock_def map_concat comp_def)
qed

text \<open>A quarter of an hour: the mark and the fourteen minutes after it.\<close>

lemma quarter:
  assumes "all_succeed S w" and "map fst em = [0, 15, 30, 45]"
      and "map_of em m = Some False"
  shows "scheduler_loop S em (concat (map (minute_ticks h w) [m ..< m + 15])) =
           (full_run S w \<lparr> hour = h, minute = m, second = 0 \<rparr> # replicate 89 [Sleep 10],
            mark_executed m em)"
proof -
  have mk: "m \<in> {0, 15, 30, 45}"
    using assms(2,3) by (rule admit_is_mark)
  have keys: "fst ` set em = {0, 15, 30, 45}"
    using assms(2) by (metis list.set_map list.simps(15) empty_set)
  have q: "\<forall>k\<in>set [Suc m ..< m + 15]. map_of (mark_executed m em) k \<noteq> Some False"
    using mk by (auto simp add: map_of_mark_executed keys)
  have u: "[m ..< m + 15] = m # [Suc m ..< m + 15]"
    by (simp add: upt_conv_Cons)
  have l: "length [Suc m ..< m + 15] = 14" by simp
  show ?thesis
    unfolding u
    by (simp only: list.map concat.simps scheduler_loop_append
          minute_admit [OF assms(1,3)] minutes_quiet [OF q] l fst_conv snd_conv)
       (simp add: replicate_add [symmetric] del: replicate.simps)
qed

lemma admitted_append: "admitted (xs @ ys) = admitted xs @ admitted ys"
  by (induction xs) (simp_all add: admitted_Nil admitted_Cons split: option.splits)

lemma admitted_full: "admitted (full_run S w now # rest) = minute now # admitted rest"
  by (simp add: admitted_Cons full_run_def)

lemma admitted_runs_append: "admitted_runs (xs @ ys) = admitted_runs xs @ admitted_runs ys"
  by (simp add: admitted_runs_def)

lemma admitted_runs_replicate_quiet: "admitted_runs (replicate n [Sleep 10]) = []"
  by (induction n) (simp_all add: admitted_runs_def)

lemma admitted_runs_full:
  "admitted_runs (full_run S w now # rest) = full_run S w now # admitted_runs rest"
  by (simp add: admitted_runs_def full_run_def)

lemma admitted_runs_started:
  "admitted_runs ([Log INFO SchedulerStarted] # rest) = admitted_runs rest"
  by (simp add: admitted_runs_def)

lemma hour_split: "[0 ..< 60] = [0 ..< 0 + 15] @ [15 ..< 15 + 15] @ [30 ..< 30 + 15] @ [45 ..< 45 + 15]"
proof -
  have "[0 ..< 60] = [0 ..< 15] @ [15 ..< 60]"
    using upt_add_eq_append [of 0 15 45] by simp
  also have "[15 ..< 60] = [15 ..< 30] @ [30 ..< 60]"
    using upt_add_eq_append [of 15 30 30] by simp
  also have "[30 ..< 60] = [30 ..< 45] @ [45 ..< 60]"
    using upt_add_eq_append [of 30 45 15] by simp
  finally show ?thesis by simp
qed

lemma hour_loop:
  assumes "all_succeed S w"
  shows "scheduler_loop S executed_minutes_init (map (\<lambda>d. (d, w)) (sim_clock h)) =
           (full_run S w \<lparr> hour = h, minute = 0, second = 0 \<rparr> # replicate 89 [Sleep 10]
            @ full_run S w \<lparr> hour = h, minute = 15, second = 0 \<rparr> # replicate 89 [Sleep 10]
            @ full_run S w \<lparr> hour = h, minute = 30, second = 0 \<rparr> # replicate 89 [Sleep 10]
            @ full_run S w \<lparr> hour = h, minute = 45, second = 0 \<rparr> # replicate 89 [Sleep 10],
            [(0, False), (15, False), (30, False), (45, True)])"
proof -
  let ?q = "\<lambda>m. concat (map (minute_ticks h w) [m ..< m + 15])"
  let ?em0 = "executed_minutes_init"
  let ?em1 = "[(0, True), (15, False), (30, False), (45, False)] :: window"
  let ?em2 = "[(0, False), (15, True), (30, False), (45, False)] :: window"
  let ?em3 = "[(0, False), (15, False), (30, True), (45, False)] :: window"
  let ?em4 = "[(0, False), (15, False), (30, False), (45, True)] :: window"
  have q0: "scheduler_loop S ?em0 (?q 0) =
      (full_run S w \<lparr> hour = h, minute = 0, second = 0 \<rparr> # replicate 89 [Sleep 10], ?em1)"
    using quarter [OF assms, of ?em0 0 h]
    by (simp add: executed_minutes_init_def mark_executed_marks)
  have q1: "scheduler_loop S ?em1 (?q 15) =
      (full_run S w \<lparr> hour = h, minute = 15, second = 0 \<rparr> # replicate 89 [Sleep 10], ?em2)"
    using quarter [OF assms, of ?em1 15 h]
    by (simp add: mark_executed_marks)
  have q2: "scheduler_loop S ?em2 (?q 30) =
      (full_run S w \<lparr> hour = h, minute = 30, second = 0 \<rparr> # replicate 89 [Sleep 10], ?em3)"
    using quarter [OF assms, of ?em2 30 h]
    by (simp add: mark_executed_marks)
  have q3: "scheduler_loop S ?em3 (?q 45) =
      (full_run S w \<lparr> hour = h, minute = 45, second = 0 \<rparr> # replicate 89 [Sleep 10], ?em4)"
    using quarter [OF assms, of ?em3 45 h]
    by (simp add: mark_executed_marks)
  have c: "map (\<lambda>d. (d, w)) (sim_clock h) = ?q 0 @ ?q 15 @ ?q 30 @ ?q 45"
    by (simp only: sim_clock_minutes hour_split map_append concat_append)
  show ?thesis
    by (simp only: c scheduler_loop_append q0 q1 q2 q3 fst_conv snd_conv append_Cons)
qed

text \<open>
  C9. Over the clock of sixty minutes read every ten seconds, with every script existing
  and succeeding, the loop admits exactly four runs, at the marks 0, 15, 30 and 45; each
  is the run \<open>full_run\<close>: the ingestion task, then every analysis task started and waited
  for, then the alerting task, then the record of the duration, and its outcome is
  \<open>Completed\<close>.
\<close>

theorem sixty_minutes_four_runs:
  assumes "all_succeed S w"
  shows "admitted (fst (start_scheduler S (map (\<lambda>d. (d, w)) (sim_clock h)))) = [0, 15, 30, 45]
         \<and> admitted_runs (fst (start_scheduler S (map (\<lambda>d. (d, w)) (sim_clock h)))) =
             [full_run S w \<lparr> hour = h, minute = 0, second = 0 \<rparr>,
              full_run S w \<lparr> hour = h, minute = 15, second = 0 \<rparr>,
              full_run S w \<lparr> hour = h, minute = 30, second = 0 \<rparr>,
              full_run S w \<lparr> hour = h, minute = 45, second = 0 \<rparr>]
         \<and> snd (execute_pipeline S w) = Completed"
proof -
  have "admitted (fst (start_scheduler S (map (\<lambda>d. (d, w)) (sim_clock h)))) = [0, 15, 30, 45]"
    by (simp add: start_scheduler_eq hour_loop [OF assms] admitted_Cons [of "[Log INFO SchedulerStarted]"]
          admitted_full admitted_append admitted_replicate_quiet del: replicate.simps)
  moreover have "admitted_runs (fst (start_scheduler S (map (\<lambda>d. (d, w)) (sim_clock h)))) =
             [full_run S w \<lparr> hour = h, minute = 0, second = 0 \<rparr>,
              full_run S w \<lparr> hour = h, minute = 15, second = 0 \<rparr>,
              full_run S w \<lparr> hour = h, minute = 30, second = 0 \<rparr>,
              full_run S w \<lparr> hour = h, minute = 45, second = 0 \<rparr>]"
    by (simp add: start_scheduler_eq hour_loop [OF assms] admitted_runs_started
          admitted_runs_full admitted_runs_append admitted_runs_replicate_quiet
          del: replicate.simps)
  moreover have "snd (execute_pipeline S w) = Completed"
    by (simp add: execute_pipeline_all_succeed [OF assms])
  ultimately show ?thesis by blast
qed

theorem sixty_minutes_four_runs_witness:
  "all_succeed (init ''/app'') world_ok
   \<and> admitted (fst (start_scheduler (init ''/app'') (map (\<lambda>d. (d, world_ok)) (sim_clock 9))))
       = [0, 15, 30, 45]
   \<and> length (admitted_runs
        (fst (start_scheduler (init ''/app'') (map (\<lambda>d. (d, world_ok)) (sim_clock 9))))) = 4
   \<and> hd (admitted_runs
        (fst (start_scheduler (init ''/app'') (map (\<lambda>d. (d, world_ok)) (sim_clock 9))))) =
       [Log INFO (Triggering \<lparr> hour = 9, minute = 0, second = 0 \<rparr>),
        Log INFO (StartingIngestion ''/app/data_ingestion/market_data_fetcher.py''),
        Run Ingestion ''/app/data_ingestion/market_data_fetcher.py'',
        Log INFO StartingAnalysis,
        Popen ''/app/technical_analysis/calc_ema_crossover.py'',
        Popen ''/app/technical_analysis/calc_rsi_multi.py'',
        Popen ''/app/technical_analysis/calc_ema_trend.py'',
        Popen ''/app/technical_analysis/calc_macd_momentum.py'',
        Wait ''/app/technical_analysis/calc_ema_crossover.py'',
        Wait ''/app/technical_analysis/calc_rsi_multi.py'',
        Wait ''/app/technical_analysis/calc_ema_trend.py'',
        Wait ''/app/technical_analysis/calc_macd_momentum.py'',
        Log INFO AllCalculated,
        Log INFO (RunningBroadcaster ''/app/alerting/signal_broadcaster.py''),
        Run Alerting ''/app/alerting/signal_broadcaster.py'',
        Log INFO (FinishedIn 1),
        Sleep 10]"
proof -
  have h: "all_succeed (init ''/app'') world_ok"
    by (simp add: all_succeed_def world_ok_def init_paths)
  have t: "time_end world_ok - time_start world_ok = 1"
    by (simp add: world_ok_def)
  from sixty_minutes_four_runs [OF h, of 9] h show ?thesis
    by (simp add: full_run_def init_paths t)
qed

end
